theory Spec2Isabelle
  imports Main "HOL-Library.AList"
begin

section \<open>Values, exceptions and the pipeline object of tcsv.py\<close>

text \<open>
  A field of a row is a string when it comes from the csv reader; a user function may
  replace it by a number (the docstring of \<open>mutate\<close>: "a string or numeric argument").
\<close>

datatype val = Str string | Num int

text \<open>
  The exceptions of the program, as values. \<open>ConstraintError\<close> carries column, value,
  fn_name and rown; \<open>TransformError\<close> carries row and err; \<open>KeyError\<close> carries its
  argument. \<open>UserError\<close> stands for any other instance of the class \<open>Exception\<close> that a
  user supplied function raises, and \<open>BaseExceptionOnly\<close> for an exception whose class
  derives from \<open>BaseException\<close> and not from \<open>Exception\<close>: \<open>SystemExit\<close>,
  \<open>KeyboardInterrupt\<close>, \<open>GeneratorExit\<close> or such a class of the user.
\<close>

datatype exn =
    StopIteration
  | KeyError string
  | IndexError
  | TypeError string
  | ConstraintError string val string int
  | UserError string
  | TransformError int exn
  | BaseExceptionOnly string

text \<open>\<open>isinstance(e, Exception)\<close>: what the clause \<open>except Exception\<close> matches.\<close>

fun is_exception :: "exn \<Rightarrow> bool" where
  "is_exception (BaseExceptionOnly name) = False"
| "is_exception e = True"

type_synonym addr = nat

text \<open>
  The closures that the registration methods append to \<open>mutation_fns\<close> and
  \<open>constraint_fns\<close>. A closure keeps the variable \<open>columns\<close>, which is a reference to
  a list object: the address of that object is what the entry stores. The closure \<open>f\<close> of
  \<open>add\<close> keeps \<open>val\<close>; the others keep the user function \<open>fn\<close>. For a constraint
  the entry also keeps \<open>fn.__name__\<close>, and the function returns the truth value that
  \<open>not fn(val)\<close> tests.
\<close>

datatype mutation =
    AddFn val
  | AddColumnFn "val list \<Rightarrow> exn + val" addr
  | MutateFn "val \<Rightarrow> exn + val" addr

datatype constraint_entry = ConstraintFn string "val \<Rightarrow> exn + bool" addr

text \<open>
  The object. \<open>reader\<close> is what is left of the source, \<open>objs\<close> holds the list objects
  of column names by address (\<open>names\<close> is the address of \<open>self.names\<close>), \<open>idx\<close> is the
  dictionary in insertion order, and \<open>select_fn\<close> is \<open>None\<close> for the identity lambda of
  the constructor or the address of the \<open>columns\<close> that the closure of \<open>select\<close> keeps.
\<close>

record tcsv =
  rownumber :: int
  reader :: "string list list"
  objs :: "addr \<Rightarrow> string list"
  next_addr :: addr
  names :: addr
  idx :: "(string \<times> nat) list"
  mutation_fns :: "mutation list"
  constraint_fns :: "constraint_entry list"
  select_fn :: "addr option"

definition names_list :: "tcsv \<Rightarrow> string list" where
  "names_list s = objs s (names s)"

text \<open>\<open>dict(zip(ks, vs))\<close>: the pairs are stored one after the other, a later one
  replacing the value of an equal key.\<close>

definition dict_zip :: "string list \<Rightarrow> nat list \<Rightarrow> (string \<times> nat) list" where
  "dict_zip ks vs = foldl (\<lambda>d (k, v). AList.update k v d) [] (zip ks vs)"

definition regen :: "string list \<Rightarrow> (string \<times> nat) list" where
  "regen ns = dict_zip ns [0..<length ns]"

text \<open>\<open>self.idx[c]\<close> with the \<open>KeyError\<close> of a missing key.\<close>

definition resolve :: "tcsv \<Rightarrow> string \<Rightarrow> exn + nat" where
  "resolve s c = (case map_of (idx s) c of None \<Rightarrow> Inl (KeyError c) | Some i \<Rightarrow> Inr i)"

section \<open>Construction\<close>

text \<open>The loop of \<open>_create_reader\<close> over \<open>range(skiprows)\<close>; \<open>next(reader)\<close> raises
  \<open>StopIteration\<close> on an exhausted source.\<close>

fun skip_rows :: "nat \<Rightarrow> string list list \<Rightarrow> int \<Rightarrow> exn + (string list list \<times> int)" where
  "skip_rows 0 rd rn = Inr (rd, rn)"
| "skip_rows (Suc k) [] rn = Inl StopIteration"
| "skip_rows (Suc k) (r # rd) rn = skip_rows k rd (rn + 1)"

definition init :: "string list list \<Rightarrow> int \<Rightarrow> exn + tcsv" where
  "init src skiprows =
     (case skip_rows (nat skiprows) src 1 of
        Inl e \<Rightarrow> Inl e
      | Inr (rd, rn) \<Rightarrow>
          (case rd of
             [] \<Rightarrow> Inl StopIteration
           | hdr # rest \<Rightarrow>
               Inr \<lparr>rownumber = rn, reader = rest, objs = (\<lambda>_. [])(0 := hdr),
                    next_addr = 1, names = 0, idx = dict_zip hdr [0..<length hdr],
                    mutation_fns = [], constraint_fns = [], select_fn = None\<rparr>))"

section \<open>Registration\<close>

definition alloc :: "string list \<Rightarrow> tcsv \<Rightarrow> tcsv \<times> addr" where
  "alloc xs s =
     (s\<lparr>objs := (objs s)(next_addr s := xs), next_addr := Suc (next_addr s)\<rparr>, next_addr s)"

text \<open>The dictionary \<open>name_map\<close> is an association list read with \<open>map_of\<close>, which is
  \<open>name_map.get(name)\<close>.\<close>

definition rename :: "(string \<times> string) list \<Rightarrow> tcsv \<Rightarrow> tcsv" where
  "rename name_map s =
     (let new_names =
            map (\<lambda>name. case map_of name_map name of None \<Rightarrow> name | Some new_name \<Rightarrow> new_name)
              (objs s (names s));
          (s1, a) = alloc new_names s
      in s1\<lparr>names := a, idx := dict_zip new_names [0..<length new_names]\<rparr>)"

text \<open>The three last statements shared by \<open>add\<close> and \<open>add_column\<close>: the closure is
  appended, then the name is appended to the list object \<open>self.names\<close> in place, then
  \<open>self.idx[name] = len(self.names) - 1\<close>.\<close>

definition register_column :: "mutation \<Rightarrow> string \<Rightarrow> tcsv \<Rightarrow> tcsv" where
  "register_column m name s =
     (let s1 = s\<lparr>mutation_fns := mutation_fns s @ [m]\<rparr>;
          s2 = s1\<lparr>objs := (objs s1)(names s1 := objs s1 (names s1) @ [name])\<rparr>
      in s2\<lparr>idx := AList.update name (length (objs s2 (names s2)) - 1) (idx s2)\<rparr>)"

definition add :: "string \<Rightarrow> val \<Rightarrow> tcsv \<Rightarrow> tcsv" where
  "add name v s = register_column (AddFn v) name s"

text \<open>The argument \<open>col\<close>: \<open>None\<close>, a \<open>str\<close>, a list or tuple of names, or a value of
  another type.\<close>

datatype col = ColNone | ColStr string | ColSeq "string list" | ColOther

definition no_such_column :: "string \<Rightarrow> string" where
  "no_such_column c = ''The column '' @ [CHR 0x27] @ c @ [CHR 0x27] @ '' does not exist''"

fun check_columns :: "(string \<times> nat) list \<Rightarrow> string list \<Rightarrow> exn + unit" where
  "check_columns d [] = Inr ()"
| "check_columns d (c # cs) =
     (case map_of d c of
        None \<Rightarrow> Inl (KeyError (no_such_column c))
      | Some i \<Rightarrow> check_columns d cs)"

text \<open>The \<open>if\<close>/\<open>elif\<close> chain of \<open>mutate\<close> and \<open>constraint\<close>: with \<open>None\<close> the
  variable \<open>columns\<close> is bound to the object \<open>self.names\<close> itself; a \<open>str\<close> gives a new
  one-element list; a list or tuple is the caller's object.\<close>

fun columns_of :: "col \<Rightarrow> tcsv \<Rightarrow> exn + (tcsv \<times> addr)" where
  "columns_of ColNone s = Inr (s, names s)"
| "columns_of (ColStr c) s = Inr (alloc [c] s)"
| "columns_of (ColSeq cs) s = Inr (alloc cs s)"
| "columns_of ColOther s = Inl (TypeError ''col must be of type None, str, list or tuple'')"

text \<open>The chain of \<open>add_column\<close> has no branch for \<open>None\<close>.\<close>

fun columns_of_add_column :: "col \<Rightarrow> tcsv \<Rightarrow> exn + (tcsv \<times> addr)" where
  "columns_of_add_column (ColStr c) s = Inr (alloc [c] s)"
| "columns_of_add_column (ColSeq cs) s = Inr (alloc cs s)"
| "columns_of_add_column other s =
     Inl (TypeError ''The parameter col must be of type str, list or tuple'')"

definition add_column :: "string \<Rightarrow> (val list \<Rightarrow> exn + val) \<Rightarrow> col \<Rightarrow> tcsv \<Rightarrow> exn + tcsv" where
  "add_column name fn c s =
     (case columns_of_add_column c s of
        Inl e \<Rightarrow> Inl e
      | Inr (s1, columns) \<Rightarrow>
          (case check_columns (idx s1) (objs s1 columns) of
             Inl e \<Rightarrow> Inl e
           | Inr u \<Rightarrow> Inr (register_column (AddColumnFn fn columns) name s1)))"

definition mutate :: "(val \<Rightarrow> exn + val) \<Rightarrow> col \<Rightarrow> tcsv \<Rightarrow> exn + tcsv" where
  "mutate fn c s =
     (case columns_of c s of
        Inl e \<Rightarrow> Inl e
      | Inr (s1, columns) \<Rightarrow>
          (case check_columns (idx s1) (objs s1 columns) of
             Inl e \<Rightarrow> Inl e
           | Inr u \<Rightarrow> Inr (s1\<lparr>mutation_fns := mutation_fns s1 @ [MutateFn fn columns]\<rparr>)))"

definition constraint :: "string \<Rightarrow> (val \<Rightarrow> exn + bool) \<Rightarrow> col \<Rightarrow> tcsv \<Rightarrow> exn + tcsv" where
  "constraint fn_name fn c s =
     (case columns_of c s of
        Inl e \<Rightarrow> Inl e
      | Inr (s1, columns) \<Rightarrow>
          (case check_columns (idx s1) (objs s1 columns) of
             Inl e \<Rightarrow> Inl e
           | Inr u \<Rightarrow>
               Inr (s1\<lparr>constraint_fns := constraint_fns s1 @ [ConstraintFn fn_name fn columns]\<rparr>)))"

text \<open>\<open>select\<close> takes a list of names; \<open>self.names = columns\<close> makes that list object
  the names of the schema, and \<open>self.idx\<close> is not assigned.\<close>

definition select :: "string list \<Rightarrow> tcsv \<Rightarrow> exn + tcsv" where
  "select cols s =
     (case check_columns (idx s) cols of
        Inl e \<Rightarrow> Inl e
      | Inr u \<Rightarrow> (case alloc cols s of (s1, a) \<Rightarrow> Inr (s1\<lparr>names := a, select_fn := Some a\<rparr>)))"

section \<open>The closures at row time\<close>

text \<open>The comprehension \<open>[row[self.idx[c]] for c in columns]\<close> of \<open>add_column_fn\<close> and of
  \<open>select_fn\<close>. An index of \<open>idx\<close> is never negative, so \<open>row[i]\<close> raises exactly when
  \<open>i\<close> is not below the length.\<close>

fun gather :: "(string \<times> nat) list \<Rightarrow> string list \<Rightarrow> val list \<Rightarrow> exn + val list" where
  "gather d [] row = Inr []"
| "gather d (c # cs) row =
     (case map_of d c of
        None \<Rightarrow> Inl (KeyError c)
      | Some i \<Rightarrow>
          if i < length row
          then (case gather d cs row of Inl e \<Rightarrow> Inl e | Inr vs \<Rightarrow> Inr (row ! i # vs))
          else Inl IndexError)"

definition add_column_fn ::
  "(string \<times> nat) list \<Rightarrow> (val list \<Rightarrow> exn + val) \<Rightarrow> string list \<Rightarrow> val list \<Rightarrow> exn + val list" where
  "add_column_fn d fn columns row =
     (case gather d columns row of
        Inl e \<Rightarrow> Inl e
      | Inr vals \<Rightarrow> (case fn vals of Inl e \<Rightarrow> Inl e | Inr new_val \<Rightarrow> Inr (row @ [new_val])))"

fun mutate_fn ::
  "(string \<times> nat) list \<Rightarrow> (val \<Rightarrow> exn + val) \<Rightarrow> string list \<Rightarrow> val list \<Rightarrow> exn + val list" where
  "mutate_fn d fn [] row = Inr row"
| "mutate_fn d fn (c # cs) row =
     (case map_of d c of
        None \<Rightarrow> Inl (KeyError c)
      | Some i \<Rightarrow>
          if i < length row
          then (case fn (row ! i) of
                  Inl e \<Rightarrow> Inl e
                | Inr v \<Rightarrow> mutate_fn d fn cs (row[i := v]))
          else Inl IndexError)"

fun constraint_fn ::
  "(string \<times> nat) list \<Rightarrow> int \<Rightarrow> string \<Rightarrow> (val \<Rightarrow> exn + bool) \<Rightarrow> string list \<Rightarrow> val list \<Rightarrow> exn + unit" where
  "constraint_fn d rn fn_name fn [] row = Inr ()"
| "constraint_fn d rn fn_name fn (c # cs) row =
     (case map_of d c of
        None \<Rightarrow> Inl (KeyError c)
      | Some i \<Rightarrow>
          if i < length row
          then (case fn (row ! i) of
                  Inl e \<Rightarrow> Inl e
                | Inr ok \<Rightarrow>
                    if \<not> ok then Inl (ConstraintError c (row ! i) fn_name rn)
                    else constraint_fn d rn fn_name fn cs row)
          else Inl IndexError)"

text \<open>What an entry of \<open>mutation_fns\<close> does to the contents of the row object it is
  called with; it returns that same object. \<open>self.idx\<close> and the contents of \<open>columns\<close>
  are read when the row is processed.\<close>

fun apply_mutation :: "tcsv \<Rightarrow> mutation \<Rightarrow> val list \<Rightarrow> exn + val list" where
  "apply_mutation s (AddFn v) row = Inr (row @ [v])"
| "apply_mutation s (AddColumnFn fn a) row = add_column_fn (idx s) fn (objs s a) row"
| "apply_mutation s (MutateFn fn a) row = mutate_fn (idx s) fn (objs s a) row"

fun apply_constraint :: "tcsv \<Rightarrow> constraint_entry \<Rightarrow> val list \<Rightarrow> exn + unit" where
  "apply_constraint s (ConstraintFn fn_name fn a) row =
     constraint_fn (idx s) (rownumber s) fn_name fn (objs s a) row"

section \<open>Pulling a row\<close>

text \<open>
  The row objects of one call of \<open>__next__\<close> live in a store of their own. The loop
  \<open>for fn in self.mutation_fns: mutated = fn(row)\<close> calls every entry with the object
  \<open>row\<close>, which the entry changes in place and returns.
\<close>

type_synonym rows = "addr \<Rightarrow> val list"

fun run_mutations ::
  "tcsv \<Rightarrow> mutation list \<Rightarrow> rows \<Rightarrow> addr \<Rightarrow> addr \<Rightarrow> exn + (rows \<times> addr)" where
  "run_mutations s [] st row mutated = Inr (st, mutated)"
| "run_mutations s (fn # fns) st row mutated =
     (case apply_mutation s fn (st row) of
        Inl e \<Rightarrow> Inl e
      | Inr r \<Rightarrow> run_mutations s fns (st(row := r)) row row)"

fun run_constraints :: "tcsv \<Rightarrow> constraint_entry list \<Rightarrow> val list \<Rightarrow> exn + unit" where
  "run_constraints s [] row = Inr ()"
| "run_constraints s (cfn # cfns) row =
     (case apply_constraint s cfn row of
        Inl e \<Rightarrow> Inl e
      | Inr u \<Rightarrow> run_constraints s cfns row)"

text \<open>The body of the \<open>try\<close>: the raw row is the object at address 0, \<open>row[:]\<close> is a
  new object at address 1, \<open>mutated[:]\<close> a new object at address 2, and the list built
  by \<open>select_fn\<close> a new object at address 3. The result is the store and the address of
  the returned object.\<close>

definition try_body :: "tcsv \<Rightarrow> val list \<Rightarrow> exn + (rows \<times> addr)" where
  "try_body s raw =
     (let st0 = (\<lambda>_. [])(0 := raw);
          st1 = st0(1 := st0 0)
      in case run_mutations s (mutation_fns s) st1 0 1 of
           Inl e \<Rightarrow> Inl e
         | Inr (st2, mutated) \<Rightarrow>
             (let st3 = st2(2 := st2 mutated)
              in case run_constraints s (constraint_fns s) (st3 2) of
                   Inl e \<Rightarrow> Inl e
                 | Inr u \<Rightarrow>
                     (case select_fn s of
                        None \<Rightarrow> Inr (st3, mutated)
                      | Some a \<Rightarrow>
                          (case gather (idx s) (objs s a) (st3 mutated) of
                             Inl e \<Rightarrow> Inl e
                           | Inr out \<Rightarrow> Inr (st3(3 := out), 3)))))"

text \<open>The handler \<open>except Exception as e: raise TransformError(self.rownumber, e)\<close>: what
  leaves \<open>__next__\<close> when \<open>e\<close> is raised in the body of the \<open>try\<close>. An exception that
  the clause does not match leaves as it is.\<close>

definition handler :: "int \<Rightarrow> exn \<Rightarrow> exn" where
  "handler rn e = (if is_exception e then TransformError rn e else e)"

definition next_row :: "tcsv \<Rightarrow> (exn + val list) \<times> tcsv" where
  "next_row s =
     (case reader s of
        [] \<Rightarrow> (Inl StopIteration, s)
      | row # rest \<Rightarrow>
          (let s1 = s\<lparr>reader := rest, rownumber := rownumber s + 1\<rparr>
           in case try_body s1 (map Str row) of
                Inl e \<Rightarrow> (Inl (handler (rownumber s1) e), s1)
              | Inr (st, a) \<Rightarrow> (Inr (st a), s1)))"

section \<open>Writing to a file\<close>

text \<open>
  The loop of \<open>write\<close>: every pulled row goes to the writer, \<open>StopIteration\<close> ends the
  loop, and any other exception leaves the method. The result is the rows written, the
  exception that left the method if one did, and the object afterwards.
\<close>

function write_rows :: "tcsv \<Rightarrow> val list list \<times> exn option \<times> tcsv" where
  "write_rows s =
     (case next_row s of
        (Inl StopIteration, s') \<Rightarrow> ([], None, s')
      | (Inl e, s') \<Rightarrow> ([], Some e, s')
      | (Inr row, s') \<Rightarrow> (case write_rows s' of (rs, r, s'') \<Rightarrow> (row # rs, r, s'')))"
  by pat_completeness auto
termination
proof (relation "measure (\<lambda>s. length (reader s))")
  show "wf (measure (\<lambda>s. length (reader s)))" by simp
next
  fix s :: tcsv and x :: "exn + val list" and s' :: tcsv and row :: "val list"
  assume "(x, s') = next_row s" and "x = Inr row"
  then show "(s', s) \<in> measure (\<lambda>s. length (reader s))"
    by (cases "reader s") (auto simp: next_row_def Let_def split: sum.splits)
qed

text \<open>\<open>write\<close> writes \<open>self.names\<close> as the first line, then the rows.\<close>

definition write_csv :: "tcsv \<Rightarrow> string list \<times> val list list \<times> exn option \<times> tcsv" where
  "write_csv s = (names_list s, write_rows s)"

section \<open>Callers\<close>

text \<open>
  A caller of the class: it constructs the object and calls its methods one after the
  other. An exception of a registration method ends the caller; the result of a pull,
  row or exception, is dropped by \<open>Next\<close> and the caller goes on.
\<close>

datatype call =
    Rename "(string \<times> string) list"
  | Add string val
  | AddColumn string "val list \<Rightarrow> exn + val" col
  | Mutate "val \<Rightarrow> exn + val" col
  | Constraint string "val \<Rightarrow> exn + bool" col
  | Select "string list"
  | Next

fun do_call :: "call \<Rightarrow> tcsv \<Rightarrow> exn + tcsv" where
  "do_call (Rename name_map) s = Inr (rename name_map s)"
| "do_call (Add name v) s = Inr (add name v s)"
| "do_call (AddColumn name fn c) s = add_column name fn c s"
| "do_call (Mutate fn c) s = mutate fn c s"
| "do_call (Constraint fn_name fn c) s = constraint fn_name fn c s"
| "do_call (Select cols) s = select cols s"
| "do_call Next s = Inr (snd (next_row s))"

fun do_calls :: "call list \<Rightarrow> tcsv \<Rightarrow> exn + tcsv" where
  "do_calls [] s = Inr s"
| "do_calls (c # cs) s = (case do_call c s of Inl e \<Rightarrow> Inl e | Inr s1 \<Rightarrow> do_calls cs s1)"

definition script :: "string list list \<Rightarrow> int \<Rightarrow> call list \<Rightarrow> exn + tcsv" where
  "script src skiprows calls =
     (case init src skiprows of Inl e \<Rightarrow> Inl e | Inr s \<Rightarrow> do_calls calls s)"

text \<open>What the next pull of a caller's object gives, and a field of the object.\<close>

definition pull_of :: "exn + tcsv \<Rightarrow> exn + val list" where
  "pull_of r = (case r of Inl e \<Rightarrow> Inl e | Inr s \<Rightarrow> fst (next_row s))"

definition resolve_in :: "exn + tcsv \<Rightarrow> string \<Rightarrow> exn + nat" where
  "resolve_in r c = (case r of Inl e \<Rightarrow> Inl e | Inr s \<Rightarrow> resolve s c)"

definition field_of :: "(tcsv \<Rightarrow> 'a) \<Rightarrow> exn + tcsv \<Rightarrow> exn + 'a" where
  "field_of f r = (case r of Inl e \<Rightarrow> Inl e | Inr s \<Rightarrow> Inr (f s))"

text \<open>The row objects after the body of the \<open>try\<close> has run on a raw row: the address
  of the returned object, the contents of the raw row object and the contents of the
  copy \<open>row[:]\<close>.\<close>

definition row_objects :: "exn + tcsv \<Rightarrow> val list \<Rightarrow> exn + (addr \<times> val list \<times> val list)" where
  "row_objects r raw =
     (case r of
        Inl e \<Rightarrow> Inl e
      | Inr s \<Rightarrow> (case try_body s raw of Inl e \<Rightarrow> Inl e | Inr (st, a) \<Rightarrow> Inr (a, st 0, st 1)))"

text \<open>User functions for the examples: one that changes a value, one that raises an
  instance of \<open>Exception\<close>, one that raises \<open>SystemExit\<close> as \<open>sys.exit()\<close> does, a
  predicate, and one of several arguments.\<close>

definition exclaim :: "val \<Rightarrow> exn + val" where
  "exclaim v = (case v of Str x \<Rightarrow> Inr (Str (x @ ''!'')) | Num n \<Rightarrow> Inr (Num (n + 1)))"

definition failing :: "val \<Rightarrow> exn + val" where
  "failing v = Inl (UserError ''boom'')"

definition exiting :: "val \<Rightarrow> exn + val" where
  "exiting v = Inl (BaseExceptionOnly ''SystemExit'')"

definition nonempty :: "val \<Rightarrow> exn + bool" where
  "nonempty v = Inr (v \<noteq> Str [])"

definition first_of :: "val list \<Rightarrow> exn + val" where
  "first_of vs = (case vs of [] \<Rightarrow> Inl (TypeError ''missing argument'') | v # rest \<Rightarrow> Inr v)"

section \<open>Predicates of the statements\<close>

text \<open>A source is valid for \<open>skiprows\<close> when it has a header row and every data row after
  the header has as many fields as the header.\<close>

definition valid_input :: "string list list \<Rightarrow> int \<Rightarrow> bool" where
  "valid_input src skiprows =
     (case drop (nat skiprows) src of
        [] \<Rightarrow> False
      | hdr # rest \<Rightarrow> list_all (\<lambda>r. length r = length hdr) rest)"

text \<open>
  Where the names of the schema stand with respect to the projection: no \<open>select\<close> was
  called; the names are the list object of the latest \<open>select\<close>; or a \<open>rename\<close> after the
  latest \<open>select\<close> has made a new list object the names. A sequence of calls is accepted
  when no \<open>add\<close> and no \<open>add_column\<close> is called in the third situation.
\<close>

datatype phase = NoSelect | Aliased | Detached

fun next_phase :: "phase \<Rightarrow> call \<Rightarrow> phase option" where
  "next_phase p (Select cols) = Some Aliased"
| "next_phase Aliased (Rename name_map) = Some Detached"
| "next_phase Detached (Add name v) = None"
| "next_phase Detached (AddColumn name fn c) = None"
| "next_phase p c = Some p"

fun no_add_after_renamed_select :: "phase \<Rightarrow> call list \<Rightarrow> bool" where
  "no_add_after_renamed_select p [] = True"
| "no_add_after_renamed_select p (c # cs) =
     (case next_phase p c of None \<Rightarrow> False | Some p' \<Rightarrow> no_add_after_renamed_select p' cs)"

text \<open>The calls that leave the names, the dictionary and the projection as they are:
  \<open>mutate\<close>, \<open>constraint\<close> and a pull.\<close>

fun keeps_schema :: "call \<Rightarrow> bool" where
  "keeps_schema (Mutate fn c) = True"
| "keeps_schema (Constraint fn_name fn c) = True"
| "keeps_schema Next = True"
| "keeps_schema c = False"

text \<open>The number of fields that the entries of a chain append to a row, and what holds
  of the object in each situation, for rows of \<open>w\<close> fields in the source.\<close>

fun appended :: "mutation \<Rightarrow> nat" where
  "appended (AddFn v) = 1"
| "appended (AddColumnFn fn a) = 1"
| "appended (MutateFn fn a) = 0"

definition count_appended :: "mutation list \<Rightarrow> nat" where
  "count_appended fns = sum_list (map appended fns)"

definition schema_inv :: "nat \<Rightarrow> phase \<Rightarrow> tcsv \<Rightarrow> bool" where
  "schema_inv w p s =
     (names s < next_addr s \<and> list_all (\<lambda>r. length r = w) (reader s) \<and>
      (case p of
         NoSelect \<Rightarrow>
           select_fn s = None \<and> length (names_list s) = w + count_appended (mutation_fns s)
       | Aliased \<Rightarrow> select_fn s = Some (names s)
       | Detached \<Rightarrow>
           (case select_fn s of
              None \<Rightarrow> False
            | Some a \<Rightarrow> a < next_addr s \<and> length (objs s a) = length (names_list s))))"

section \<open>Evaluation and basic facts\<close>

lemmas run_defs = script_def init_def pull_of_def field_of_def row_objects_def next_row_def
  try_body_def mutate_def constraint_def select_def add_def add_column_def rename_def
  register_column_def alloc_def names_list_def regen_def dict_zip_def resolve_def
  resolve_in_def exclaim_def failing_def exiting_def nonempty_def first_of_def handler_def Let_def

lemma next_row_Nil: "reader s = [] \<Longrightarrow> next_row s = (Inl StopIteration, s)"
  by (simp add: next_row_def)

lemma snd_next_row_Cons:
  "reader s = row # rest \<Longrightarrow> snd (next_row s) = s\<lparr>reader := rest, rownumber := rownumber s + 1\<rparr>"
  by (simp add: next_row_def Let_def split: sum.splits prod.splits)

lemma fst_next_row_Cons:
  "reader s = row # rest \<Longrightarrow>
   fst (next_row s) =
     (case try_body (s\<lparr>reader := rest, rownumber := rownumber s + 1\<rparr>) (map Str row) of
        Inl e \<Rightarrow> Inl (handler (rownumber s + 1) e)
      | Inr (st, a) \<Rightarrow> Inr (st a))"
  by (simp add: next_row_def Let_def split: sum.splits prod.splits)

lemma columns_of_fields:
  "columns_of c s = Inr (s1, a) \<Longrightarrow>
   rownumber s1 = rownumber s \<and> reader s1 = reader s \<and> idx s1 = idx s \<and> names s1 = names s
   \<and> mutation_fns s1 = mutation_fns s \<and> constraint_fns s1 = constraint_fns s \<and> select_fn s1 = select_fn s"
  by (cases c) (auto simp: alloc_def)

lemma columns_of_add_column_fields:
  "columns_of_add_column c s = Inr (s1, a) \<Longrightarrow>
   rownumber s1 = rownumber s \<and> reader s1 = reader s \<and> idx s1 = idx s \<and> names s1 = names s
   \<and> mutation_fns s1 = mutation_fns s \<and> constraint_fns s1 = constraint_fns s \<and> select_fn s1 = select_fn s"
  by (cases c) (auto simp: alloc_def)

lemma register_column_source:
  "rownumber (register_column m n s) = rownumber s \<and> reader (register_column m n s) = reader s"
  by (simp add: register_column_def Let_def)

lemma do_call_source:
  assumes "do_call c s = Inr s'" and "c \<noteq> Next"
  shows "rownumber s' = rownumber s \<and> reader s' = reader s"
proof (cases c)
  case (Rename m)
  with assms show ?thesis by (auto simp: rename_def alloc_def Let_def)
next
  case (Add n v)
  with assms show ?thesis by (auto simp: add_def register_column_source)
next
  case (AddColumn n f cl)
  with assms show ?thesis
    by (auto simp: add_column_def register_column_source split: sum.splits prod.splits
        dest: columns_of_add_column_fields)
next
  case (Mutate f cl)
  with assms show ?thesis
    by (auto simp: mutate_def split: sum.splits prod.splits dest: columns_of_fields)
next
  case (Constraint n f cl)
  with assms show ?thesis
    by (auto simp: constraint_def split: sum.splits prod.splits dest: columns_of_fields)
next
  case (Select cs)
  with assms show ?thesis
    by (auto simp: select_def alloc_def split: sum.splits prod.splits)
next
  case Next
  with assms show ?thesis by simp
qed

lemma do_call_consumed:
  assumes "do_call c s = Inr s'"
  shows "rownumber s' + int (length (reader s')) = rownumber s + int (length (reader s))"
proof (cases "c = Next")
  case True
  with assms have s': "s' = snd (next_row s)" by simp
  show ?thesis
  proof (cases "reader s")
    case Nil
    then show ?thesis by (simp add: s' next_row_Nil)
  next
    case (Cons row rest)
    then show ?thesis by (simp add: s' snd_next_row_Cons)
  qed
next
  case False
  with assms show ?thesis by (simp add: do_call_source)
qed

lemma do_calls_consumed:
  "do_calls cs s = Inr s' \<Longrightarrow>
   rownumber s' + int (length (reader s')) = rownumber s + int (length (reader s))"
proof (induction cs arbitrary: s)
  case Nil
  then show ?case by simp
next
  case (Cons c cs)
  then obtain s1 where c: "do_call c s = Inr s1" and cs: "do_calls cs s1 = Inr s'"
    by (auto split: sum.splits)
  from Cons.IH [OF cs] do_call_consumed [OF c] show ?case by simp
qed

lemma skip_rows_result:
  "skip_rows k rd rn = Inr (rd', rn') \<Longrightarrow> rd' = drop k rd \<and> rn' = rn + int k \<and> k \<le> length rd"
  by (induction k rd rn rule: skip_rows.induct) auto

lemma init_rownumber:
  assumes "init src skiprows = Inr s"
  shows "rownumber s = 1 + int (nat skiprows) \<and> rownumber s + int (length (reader s)) = int (length src)"
proof -
  from assms obtain rd rn hdr rest where
    sk: "skip_rows (nat skiprows) src 1 = Inr (rd, rn)" and rd: "rd = hdr # rest"
    and s: "rownumber s = rn" "reader s = rest"
    by (auto simp: init_def split: sum.splits prod.splits list.splits)
  from skip_rows_result [OF sk] have "rd = drop (nat skiprows) src" "rn = 1 + int (nat skiprows)"
    "nat skiprows \<le> length src" by auto
  moreover from this rd have "length src = nat skiprows + Suc (length rest)"
    by (metis length_Cons length_drop le_add_diff_inverse)
  ultimately show ?thesis using s by simp
qed

lemma script_rownumber:
  assumes "script src skiprows calls = Inr s"
  shows "rownumber s = int (length src) - int (length (reader s))"
proof -
  from assms obtain s0 where i: "init src skiprows = Inr s0" and c: "do_calls calls s0 = Inr s"
    by (auto simp: script_def split: sum.splits)
  from init_rownumber [OF i] do_calls_consumed [OF c] show ?thesis by simp
qed

lemma run_mutations_append:
  "run_mutations s (xs @ ys) st r m =
     (case run_mutations s xs st r m of
        Inl e \<Rightarrow> Inl e
      | Inr (st', m') \<Rightarrow> run_mutations s ys st' r m')"
  by (induction xs arbitrary: st m) (auto split: sum.splits)

lemma run_constraints_append:
  "run_constraints s (xs @ ys) row =
     (case run_constraints s xs row of Inl e \<Rightarrow> Inl e | Inr u \<Rightarrow> run_constraints s ys row)"
  by (induction xs) (auto split: sum.splits)

lemma constraint_fn_append:
  "constraint_fn d rn nm fn (xs @ ys) row =
     (case constraint_fn d rn nm fn xs row of
        Inl e \<Rightarrow> Inl e
      | Inr u \<Rightarrow> constraint_fn d rn nm fn ys row)"
  by (induction xs) (auto split: sum.splits option.splits)

lemma try_body_mutations_raise:
  "run_mutations s (mutation_fns s) ((\<lambda>_. [])(0 := raw, 1 := raw)) 0 1 = Inl e \<Longrightarrow>
   try_body s raw = Inl e"
  by (simp add: try_body_def Let_def)

lemma try_body_constraints_raise:
  "run_mutations s (mutation_fns s) ((\<lambda>_. [])(0 := raw, 1 := raw)) 0 1 = Inr (st, m) \<Longrightarrow>
   run_constraints s (constraint_fns s) (st m) = Inl e \<Longrightarrow>
   try_body s raw = Inl e"
  by (simp add: try_body_def Let_def)

lemma handler_not_StopIteration: "handler rn e \<noteq> StopIteration"
  by (cases e) (simp_all add: handler_def)

lemma handler_TransformError: "handler rn e = TransformError n c \<Longrightarrow> n = rn \<and> c = e"
  by (cases e) (simp_all add: handler_def)

lemma fst_next_row_StopIteration: "fst (next_row s) = Inl StopIteration \<longleftrightarrow> reader s = []"
  by (cases "reader s")
     (auto simp: next_row_def Let_def handler_not_StopIteration split: sum.splits prod.splits)

lemma map_of_foldl_update:
  "map_of (foldl (\<lambda>d (k, v). AList.update k v d) d0 kvs) = map_of d0 ++ map_of (rev kvs)"
proof (induction kvs arbitrary: d0)
  case Nil
  then show ?case by simp
next
  case (Cons kv kvs)
  obtain k v where kv: "kv = (k, v)" by (cases kv)
  show ?case
    by (simp add: kv Cons.IH update_conv' map_add_def fun_eq_iff split: option.splits)
qed

lemma map_of_regen: "map_of (regen ns) = map_of (rev (zip ns [0..<length ns]))"
  by (simp add: regen_def dict_zip_def map_of_foldl_update)

lemma distinct_foldl_update:
  "distinct (map fst d0) \<Longrightarrow> distinct (map fst (foldl (\<lambda>d (k, v). AList.update k v d) d0 kvs))"
  by (induction kvs arbitrary: d0) (auto simp: distinct_update)

lemma distinct_regen: "distinct (map fst (regen ns))"
  by (simp add: regen_def dict_zip_def distinct_foldl_update)

lemma keys_regen: "fst ` set (regen ns) = set ns"
proof -
  have z: "map fst (zip ns [0..<length ns]) = ns" by (rule map_fst_zip) simp
  have "fst ` set (regen ns) = dom (map_of (regen ns))" by (simp add: dom_map_of_conv_image_fst)
  also have "\<dots> = fst ` set (rev (zip ns [0..<length ns]))"
    by (simp only: map_of_regen dom_map_of_conv_image_fst)
  also have "\<dots> = set ns" using z by (metis set_map set_rev)
  finally show ?thesis .
qed

lemma length_regen: "length (regen ns) = card (set ns)"
proof -
  have "length (regen ns) = length (map fst (regen ns))" by simp
  also have "\<dots> = card (set (map fst (regen ns)))"
    using distinct_regen by (simp only: distinct_card)
  also have "\<dots> = card (set ns)" by (simp add: keys_regen)
  finally show ?thesis .
qed

lemma length_regen_distinct: "length (regen ns) = length ns \<longleftrightarrow> distinct ns"
  by (metis length_regen card_distinct distinct_card)

lemma regen_snoc: "regen (ns @ [n]) = AList.update n (length ns) (regen ns)"
  by (simp add: regen_def dict_zip_def)

lemma register_column_schema:
  "names_list (register_column m n s) = names_list s @ [n]
   \<and> idx (register_column m n s) = AList.update n (length (names_list s)) (idx s)"
  by (simp add: register_column_def names_list_def Let_def)

lemma rename_schema:
  "names_list (rename name_map s) =
     map (\<lambda>name. case map_of name_map name of None \<Rightarrow> name | Some new_name \<Rightarrow> new_name) (names_list s)
   \<and> idx (rename name_map s) = regen (names_list (rename name_map s))"
  by (simp add: rename_def names_list_def alloc_def regen_def Let_def)

lemma init_schema: "init src skiprows = Inr s \<Longrightarrow> idx s = regen (names_list s)"
  by (auto simp: init_def names_list_def regen_def split: sum.splits prod.splits list.splits)

lemma select_schema:
  "select cols s = Inr s' \<Longrightarrow> idx s' = idx s \<and> names_list s' = cols \<and> select_fn s' = Some (names s')"
  by (auto simp: select_def alloc_def names_list_def split: sum.splits)

lemma columns_of_add_column_names:
  "columns_of_add_column c s = Inr (s1, a) \<Longrightarrow> names s < next_addr s \<Longrightarrow>
   names_list s1 = names_list s \<and> idx s1 = idx s"
  by (cases c) (auto simp: alloc_def names_list_def)

lemma add_column_schema:
  assumes "add_column name fn c s = Inr s'" and "names s < next_addr s"
  shows "names_list s' = names_list s @ [name]
     \<and> idx s' = AList.update name (length (names_list s)) (idx s)"
proof -
  from assms(1) obtain s1 a where c: "columns_of_add_column c s = Inr (s1, a)"
    and s': "s' = register_column (AddColumnFn fn a) name s1"
    by (auto simp: add_column_def split: sum.splits prod.splits)
  from columns_of_add_column_names [OF c assms(2)] show ?thesis
    by (simp add: s' register_column_schema)
qed

lemma map_of_map_key_inj:
  "inj_on f (insert a (fst ` set xs)) \<Longrightarrow>
   map_of (map (\<lambda>(k, v). (f k, v)) xs) (f a) = map_of xs a"
proof (induction xs)
  case Nil
  then show ?case by simp
next
  case (Cons x xs)
  obtain k v where x: "x = (k, v)" by (cases x)
  from Cons.prems have inj: "inj_on f (insert a (fst ` set xs))"
    by (auto intro: inj_on_subset)
  from Cons.prems have "f a = f k \<longleftrightarrow> a = k"
    by (auto simp: x inj_on_def)
  with Cons.IH [OF inj] show ?case by (simp add: x)
qed

lemma map_of_regen_map:
  assumes "inj_on f (insert a (set ns))"
  shows "map_of (regen (map f ns)) (f a) = map_of (regen ns) a"
proof -
  have z: "rev (zip (map f ns) [0..<length ns]) =
        map (\<lambda>(k, v). (f k, v)) (rev (zip ns [0..<length ns]))"
    by (simp add: zip_map1 rev_map)
  have "fst ` set (rev (zip ns [0..<length ns])) \<subseteq> set ns"
    by (auto dest: set_zip_leftD)
  with assms have "inj_on f (insert a (fst ` set (rev (zip ns [0..<length ns]))))"
    by (auto intro: inj_on_subset)
  from map_of_map_key_inj [OF this] show ?thesis
    by (simp add: map_of_regen z)
qed

lemma map_of_regen_None: "map_of (regen ns) c = None \<longleftrightarrow> c \<notin> set ns"
  by (simp add: map_of_eq_None_iff keys_regen)

lemma gather_list_all2:
  "gather d cs row = Inr out \<longleftrightarrow>
   list_all2 (\<lambda>c v. \<exists>i. map_of d c = Some i \<and> i < length row \<and> v = row ! i) cs out"
proof (induction cs arbitrary: out)
  case Nil
  then show ?case by auto
next
  case (Cons c cs)
  show ?case
  proof (cases out)
    case Nil
    then show ?thesis by (auto split: option.splits sum.splits)
  next
    case (Cons v vs)
    with Cons.IH [of vs] show ?thesis
      by (auto split: option.splits sum.splits)
  qed
qed

lemma select_object:
  "select cols s = Inr s' \<Longrightarrow>
   idx s' = idx s \<and> names_list s' = cols \<and> select_fn s' = Some (names s')
   \<and> mutation_fns s' = mutation_fns s \<and> constraint_fns s' = constraint_fns s
   \<and> reader s' = reader s \<and> rownumber s' = rownumber s"
  by (auto simp: select_def alloc_def names_list_def split: sum.splits)

lemma try_body_select:
  assumes "select_fn s = Some a"
    and "run_mutations s (mutation_fns s) ((\<lambda>_. [])(0 := raw, 1 := raw)) 0 1 = Inr (st, m)"
    and "run_constraints s (constraint_fns s) (st m) = Inr ()"
  shows "try_body s raw =
     (case gather (idx s) (objs s a) (st m) of
        Inl e \<Rightarrow> Inl e
      | Inr out \<Rightarrow> Inr (st(2 := st m, 3 := out), 3))"
  using assms by (simp add: try_body_def Let_def)

lemma write_rows_raises:
  "next_row s = (Inl e, s') \<Longrightarrow> e \<noteq> StopIteration \<Longrightarrow> write_rows s = ([], Some e, s')"
  by (subst write_rows.simps) (simp split: exn.splits)

lemma constraint_fn_first_failure:
  assumes "constraint_fn d rn fn_name fn cs_before row = Inr ()"
    and "map_of d c = Some i" and "i < length row" and "fn (row ! i) = Inr False"
  shows "constraint_fn d rn fn_name fn (cs_before @ c # cs_after) row
     = Inl (ConstraintError c (row ! i) fn_name rn)"
  using assms by (simp add: constraint_fn_append)

lemma run_constraints_first_failure:
  assumes "run_constraints s before row = Inr ()"
    and "apply_constraint s cfn row = Inl e"
  shows "run_constraints s (before @ cfn # after) row = Inl e"
  using assms by (simp add: run_constraints_append)

lemma mutate_fn_length: "mutate_fn d fn cs row = Inr row' \<Longrightarrow> length row' = length row"
  by (induction cs arbitrary: row) (auto split: option.splits if_splits sum.splits)

lemma apply_mutation_length:
  "apply_mutation s f row = Inr row' \<Longrightarrow> length row' = length row + appended f"
  by (cases f) (auto simp: add_column_fn_def split: sum.splits dest: mutate_fn_length)

lemma run_mutations_length:
  "run_mutations s fns st r m = Inr (st', m') \<Longrightarrow> length (st m) = length (st r) \<Longrightarrow>
   length (st' m') = length (st r) + count_appended fns"
proof (induction fns arbitrary: st m)
  case Nil
  then show ?case by (simp add: count_appended_def)
next
  case (Cons f fns)
  from Cons.prems(1) obtain row' where f: "apply_mutation s f (st r) = Inr row'"
    and rest: "run_mutations s fns (st(r := row')) r r = Inr (st', m')"
    by (auto split: sum.splits)
  from Cons.IH [OF rest] apply_mutation_length [OF f] show ?case
    by (simp add: count_appended_def)
qed

lemma gather_length: "gather d cs row = Inr out \<Longrightarrow> length out = length cs"
  by (induction cs arbitrary: out) (auto split: option.splits if_splits sum.splits)

lemma try_body_length:
  assumes "try_body s raw = Inr (st, a)"
  shows "length (st a) =
     (case select_fn s of
        None \<Rightarrow> length raw + count_appended (mutation_fns s)
      | Some c \<Rightarrow> length (objs s c))"
proof -
  from assms obtain st2 m where
    mu: "run_mutations s (mutation_fns s) ((\<lambda>_. [])(0 := raw, 1 := raw)) 0 1 = Inr (st2, m)"
    by (auto simp: try_body_def Let_def split: sum.splits)
  from run_mutations_length [OF mu] have len: "length (st2 m) = length raw + count_appended (mutation_fns s)"
    by simp
  show ?thesis
  proof (cases "select_fn s")
    case None
    with assms mu have "st a = st2 m"
      by (auto simp: try_body_def Let_def split: sum.splits)
    with len None show ?thesis by simp
  next
    case (Some c)
    with assms mu obtain out where "gather (idx s) (objs s c) (st2 m) = Inr out" and "st a = out"
      by (auto simp: try_body_def Let_def split: sum.splits)
    with gather_length Some show ?thesis by auto
  qed
qed

lemma schema_inv_emit:
  assumes inv: "schema_inv w p s" and out: "fst (next_row s) = Inr out"
  shows "length out = length (names_list s)"
proof (cases "reader s")
  case Nil
  with out show ?thesis by (simp add: next_row_Nil)
next
  case (Cons row rest)
  let ?s1 = "s\<lparr>reader := rest, rownumber := rownumber s + 1\<rparr>"
  from out obtain st a where tb: "try_body ?s1 (map Str row) = Inr (st, a)" and o: "out = st a"
    by (auto simp: fst_next_row_Cons [OF Cons] split: sum.splits)
  from inv Cons have w: "length row = w" by (simp add: schema_inv_def)
  from try_body_length [OF tb] have len: "length out =
     (case select_fn s of
        None \<Rightarrow> length row + count_appended (mutation_fns s)
      | Some c \<Rightarrow> length (objs s c))"
    by (simp add: o cong: option.case_cong)
  show ?thesis
  proof (cases p)
    case NoSelect
    with inv len w show ?thesis by (simp add: schema_inv_def)
  next
    case Aliased
    with inv len show ?thesis by (simp add: schema_inv_def names_list_def)
  next
    case Detached
    with inv len show ?thesis by (auto simp: schema_inv_def split: option.splits)
  qed
qed

lemma init_schema_inv:
  assumes "init src skiprows = Inr s" and "valid_input src skiprows"
  shows "schema_inv (length (names_list s)) NoSelect s"
proof -
  from assms(1) obtain rd rn hdr rest where
    sk: "skip_rows (nat skiprows) src 1 = Inr (rd, rn)" and rd: "rd = hdr # rest"
    and s: "s = \<lparr>rownumber = rn, reader = rest, objs = (\<lambda>_. [])(0 := hdr),
                    next_addr = 1, names = 0, idx = dict_zip hdr [0..<length hdr],
                    mutation_fns = [], constraint_fns = [], select_fn = None\<rparr>"
    by (auto simp: init_def split: sum.splits prod.splits list.splits)
  from skip_rows_result [OF sk] rd have "drop (nat skiprows) src = hdr # rest" by simp
  with assms(2) have "list_all (\<lambda>r. length r = length hdr) rest" by (simp add: valid_input_def)
  then show ?thesis by (simp add: s schema_inv_def names_list_def count_appended_def)
qed

lemma columns_of_heap:
  assumes "columns_of c s = Inr (s1, a)" and "names s < next_addr s"
  shows "names s1 = names s \<and> next_addr s \<le> next_addr s1 \<and> reader s1 = reader s
     \<and> select_fn s1 = select_fn s \<and> mutation_fns s1 = mutation_fns s
     \<and> (\<forall>b<next_addr s. objs s1 b = objs s b)"
  using assms by (cases c) (auto simp: alloc_def)

lemma columns_of_add_column_heap:
  assumes "columns_of_add_column c s = Inr (s1, a)" and "names s < next_addr s"
  shows "names s1 = names s \<and> next_addr s \<le> next_addr s1 \<and> reader s1 = reader s
     \<and> select_fn s1 = select_fn s \<and> mutation_fns s1 = mutation_fns s
     \<and> (\<forall>b<next_addr s. objs s1 b = objs s b)"
  using assms by (cases c) (auto simp: alloc_def)

lemma schema_inv_alloc:
  assumes inv: "schema_inv w p s"
    and h: "names s1 = names s \<and> next_addr s \<le> next_addr s1 \<and> reader s1 = reader s
     \<and> select_fn s1 = select_fn s \<and> mutation_fns s1 = mutation_fns s
     \<and> (\<forall>b<next_addr s. objs s1 b = objs s b)"
  shows "schema_inv w p s1"
  using assms by (cases p) (auto simp: schema_inv_def names_list_def split: option.splits)

lemma schema_inv_mutation_fns:
  "schema_inv w p s \<Longrightarrow> schema_inv w p (s\<lparr>mutation_fns := mutation_fns s @ [MutateFn fn a]\<rparr>)"
  by (cases p) (auto simp: schema_inv_def names_list_def count_appended_def split: option.splits)

lemma schema_inv_constraint_fns:
  "schema_inv w p s \<Longrightarrow> schema_inv w p (s\<lparr>constraint_fns := cfs\<rparr>)"
  by (cases p) (auto simp: schema_inv_def names_list_def split: option.splits)

lemma schema_inv_register_column:
  assumes "schema_inv w p s" and "p \<noteq> Detached" and "appended m = 1"
  shows "schema_inv w p (register_column m name s)"
  using assms
  by (cases p) (auto simp: schema_inv_def names_list_def register_column_def count_appended_def Let_def)

lemma schema_inv_rename:
  assumes "schema_inv w p s"
  shows "schema_inv w (if p = NoSelect then NoSelect else Detached) (rename name_map s)"
  using assms
  by (cases p) (auto simp: schema_inv_def names_list_def rename_def alloc_def Let_def split: option.splits)

lemma schema_inv_select:
  assumes "schema_inv w p s" and "select cols s = Inr s'"
  shows "schema_inv w Aliased s'"
  using assms
  by (cases p) (auto simp: schema_inv_def select_def alloc_def split: sum.splits)

lemma schema_inv_next:
  assumes "schema_inv w p s"
  shows "schema_inv w p (snd (next_row s))"
proof (cases "reader s")
  case Nil
  with assms show ?thesis by (simp add: next_row_Nil)
next
  case (Cons row rest)
  with assms show ?thesis
    by (cases p) (auto simp: snd_next_row_Cons [OF Cons] schema_inv_def names_list_def split: option.splits)
qed

lemma schema_inv_step:
  assumes inv: "schema_inv w p s" and c: "do_call c s = Inr s'" and ph: "next_phase p c = Some p'"
  shows "schema_inv w p' s'"
proof (cases c)
  case (Rename name_map)
  with c have s': "s' = rename name_map s" by simp
  from ph Rename have "p' = (if p = NoSelect then NoSelect else Detached)" by (cases p) auto
  with schema_inv_rename [OF inv] s' show ?thesis by simp
next
  case (Add name v)
  with ph have "p \<noteq> Detached" "p' = p" by (cases p; simp)+
  with Add c schema_inv_register_column [OF inv] show ?thesis by (auto simp: add_def)
next
  case (AddColumn name fn cl)
  with ph have p: "p \<noteq> Detached" "p' = p" by (cases p; simp)+
  from c AddColumn obtain s1 a where co: "columns_of_add_column cl s = Inr (s1, a)"
    and s': "s' = register_column (AddColumnFn fn a) name s1"
    by (auto simp: add_column_def split: sum.splits prod.splits)
  from inv have "names s < next_addr s" by (simp add: schema_inv_def)
  from schema_inv_alloc [OF inv columns_of_add_column_heap [OF co this]]
  have "schema_inv w p s1" .
  from schema_inv_register_column [OF this p(1)] s' p(2) show ?thesis by simp
next
  case (Mutate fn cl)
  with ph have p: "p' = p" by (cases p) auto
  from c Mutate obtain s1 a where co: "columns_of cl s = Inr (s1, a)"
    and s': "s' = s1\<lparr>mutation_fns := mutation_fns s1 @ [MutateFn fn a]\<rparr>"
    by (auto simp: mutate_def split: sum.splits prod.splits)
  from inv have "names s < next_addr s" by (simp add: schema_inv_def)
  from schema_inv_alloc [OF inv columns_of_heap [OF co this]]
  have "schema_inv w p s1" .
  from schema_inv_mutation_fns [OF this] s' p show ?thesis by simp
next
  case (Constraint fn_name fn cl)
  with ph have p: "p' = p" by (cases p) auto
  from c Constraint obtain s1 a where co: "columns_of cl s = Inr (s1, a)"
    and s': "s' = s1\<lparr>constraint_fns := constraint_fns s1 @ [ConstraintFn fn_name fn a]\<rparr>"
    by (auto simp: constraint_def split: sum.splits prod.splits)
  from inv have "names s < next_addr s" by (simp add: schema_inv_def)
  from schema_inv_alloc [OF inv columns_of_heap [OF co this]]
  have "schema_inv w p s1" .
  from schema_inv_constraint_fns [OF this] s' p show ?thesis by simp
next
  case (Select cols)
  with ph have "p' = Aliased" by simp
  with Select c schema_inv_select [OF inv] show ?thesis by simp
next
  case Next
  with ph have "p' = p" by (cases p) auto
  with Next c schema_inv_next [OF inv] show ?thesis by auto
qed

lemma schema_inv_calls:
  "schema_inv w p s \<Longrightarrow> do_calls cs s = Inr s' \<Longrightarrow> no_add_after_renamed_select p cs \<Longrightarrow>
   \<exists>p'. schema_inv w p' s'"
proof (induction cs arbitrary: p s)
  case Nil
  then show ?case by auto
next
  case (Cons c cs)
  from Cons.prems(2) obtain s1 where c: "do_call c s = Inr s1" and cs: "do_calls cs s1 = Inr s'"
    by (auto split: sum.splits)
  from Cons.prems(3) obtain p1 where ph: "next_phase p c = Some p1"
    and ok: "no_add_after_renamed_select p1 cs"
    by (auto split: option.splits)
  from Cons.IH [OF schema_inv_step [OF Cons.prems(1) c ph] cs ok] show ?case .
qed

lemma projection_kept_step:
  assumes c: "do_call c s = Inr s'" and k: "keeps_schema c"
    and a: "select_fn s = Some (names s)" and n: "names s < next_addr s"
  shows "idx s' = idx s \<and> select_fn s' = Some (names s') \<and> names s' < next_addr s'
     \<and> names_list s' = names_list s"
proof (cases c)
  case (Mutate fn cl)
  from c Mutate obtain s1 b where co: "columns_of cl s = Inr (s1, b)"
    and s': "s' = s1\<lparr>mutation_fns := mutation_fns s1 @ [MutateFn fn b]\<rparr>"
    by (auto simp: mutate_def split: sum.splits prod.splits)
  from columns_of_heap [OF co n] columns_of_fields [OF co] a n show ?thesis
    by (auto simp: s' names_list_def)
next
  case (Constraint fn_name fn cl)
  from c Constraint obtain s1 b where co: "columns_of cl s = Inr (s1, b)"
    and s': "s' = s1\<lparr>constraint_fns := constraint_fns s1 @ [ConstraintFn fn_name fn b]\<rparr>"
    by (auto simp: constraint_def split: sum.splits prod.splits)
  from columns_of_heap [OF co n] columns_of_fields [OF co] a n show ?thesis
    by (auto simp: s' names_list_def)
next
  case Next
  with c have s': "s' = snd (next_row s)" by simp
  show ?thesis
  proof (cases "reader s")
    case Nil
    with a n show ?thesis by (simp add: s' next_row_Nil)
  next
    case (Cons row rest)
    with a n show ?thesis by (simp add: s' snd_next_row_Cons [OF Cons] names_list_def)
  qed
qed (use k in simp_all)

lemma projection_kept_calls:
  "do_calls cs s = Inr s' \<Longrightarrow> list_all keeps_schema cs \<Longrightarrow>
   select_fn s = Some (names s) \<Longrightarrow> names s < next_addr s \<Longrightarrow>
   idx s' = idx s \<and> select_fn s' = Some (names s') \<and> names_list s' = names_list s"
proof (induction cs arbitrary: s)
  case Nil
  then show ?case by simp
next
  case (Cons c cs)
  from Cons.prems(1) obtain s1 where c: "do_call c s = Inr s1" and cs: "do_calls cs s1 = Inr s'"
    by (auto split: sum.splits)
  from Cons.prems(2) have k: "keeps_schema c" and ks: "list_all keeps_schema cs" by simp_all
  from projection_kept_step [OF c k Cons.prems(3,4)]
  have 1: "idx s1 = idx s" "select_fn s1 = Some (names s1)" "names s1 < next_addr s1"
    "names_list s1 = names_list s" by simp_all
  from Cons.IH [OF cs ks 1(2,3)] 1 show ?case by simp
qed

lemma select_allocated:
  "select cols s = Inr s' \<Longrightarrow> names s' < next_addr s'"
  by (auto simp: select_def alloc_def split: sum.splits)

section \<open>C1: mutate with col=None and a column added later\<close>

text \<open>
  C1 says that \<open>mutate(fn, col=None)\<close> is \<open>mutate(fn, col=L)\<close> for the list \<open>L\<close> of the
  names at registration, so that a column added later by \<open>add\<close> or \<open>add_column\<close> is not
  among the targets. The code binds \<open>columns\<close> to the list object \<open>self.names\<close>, and
  \<open>add\<close> appends to that same object. For the header \<open>a\<close> and the data row \<open>x\<close>:
  after \<open>mutate(fn)\<close> and \<open>add(k, v)\<close> the closure of \<open>mutate\<close> also visits \<open>k\<close>, whose
  index is not yet in the row when it runs, and the pull raises \<open>TransformError\<close> with
  an \<open>IndexError\<close>; with \<open>mutate(fn, [a])\<close> in its place the pull returns the row.
\<close>

theorem mutate_none_sees_later_column:
  "pull_of (script [[''a''], [''x'']] 0 [Mutate exclaim ColNone, Add ''k'' (Str ''v'')])
     = Inl (TransformError 2 IndexError)
   \<and> pull_of (script [[''a''], [''x'']] 0 [Mutate exclaim (ColSeq [''a'']), Add ''k'' (Str ''v'')])
     = Inr [Str ''x!'', Str ''v'']"
  by (simp add: run_defs)

section \<open>C2: the object the transform chain runs on\<close>

text \<open>
  C2 says that the chain runs over a private copy of the raw row. In the loop of
  \<open>__next__\<close> every entry is called with \<open>row\<close>, the raw row object, and the copy made
  before the loop is dropped at the first entry. For the header \<open>a\<close>, the raw row \<open>x\<close>
  and one registered \<open>add(k, v)\<close>: the returned object is the raw row object (address
  0), which now holds \<open>x, v\<close>, and the copy (address 1) still holds \<open>x\<close>.
\<close>

theorem chain_runs_on_raw_row_object:
  "row_objects (script [[''a''], [''x'']] 0 [Add ''k'' (Str ''v'')]) [Str ''x'']
     = Inr (0, [Str ''x'', Str ''v''], [Str ''x''])"
  by (simp add: run_defs)

section \<open>C7: the row counter\<close>

text \<open>
  C7 says that the counter starts at 1 and grows by one for every skipped row, by one
  for the header and by one for every pulled row. The constructor does not count the
  header: after construction without skipped rows the counter is 1, not 2.
\<close>

theorem header_not_counted:
  "field_of rownumber (script [[''a''], [''x'']] 0 []) = Inr 1"
  by (simp add: run_defs)

text \<open>
  C7 as amended: the counter starts at 1 and grows by one for every skipped row; it does
  not grow when the header is read; it grows by one for every pull that reads a row,
  whether the pull returns or raises, and not at all for a pull on an exhausted source.
  So after any calls it is the number of rows read from the source so far.
\<close>

theorem rownumber_counts_rows_read:
  "(init src skiprows = Inr s \<longrightarrow> rownumber s = 1 + int (nat skiprows))
   \<and> (reader t = row # rest \<longrightarrow> rownumber (snd (next_row t)) = rownumber t + 1)
   \<and> (reader t = [] \<longrightarrow> rownumber (snd (next_row t)) = rownumber t)
   \<and> (script src' skiprows' calls = Inr u \<longrightarrow>
        rownumber u = int (length src') - int (length (reader u)))"
  using init_rownumber script_rownumber by (auto simp: snd_next_row_Cons next_row_Nil)

theorem rownumber_counts_rows_read_witness:
  "rownumber (projr (init [[''junk''], [''a''], [''x'']] 1)) = 2
   \<and> fst (next_row (projr (script [[''a''], [''x'']] 0 [Mutate failing ColNone])))
       = Inl (TransformError 2 (UserError ''boom''))
   \<and> rownumber (snd (next_row (projr (script [[''a''], [''x'']] 0 [Mutate failing ColNone])))) = 2
   \<and> rownumber (snd (next_row (projr (script [[''a'']] 0 [])))) = 1
   \<and> rownumber (projr (script [[''a''], [''x''], [''y'']] 0 [Mutate failing ColNone, Next])) = 2"
  using rownumber_counts_rows_read [of "[[''junk''], [''a''], [''x'']]" 1
      "projr (init [[''junk''], [''a''], [''x'']] 1)"
      "projr (script [[''a''], [''x'']] 0 [Mutate failing ColNone])" "[''x'']" "[]"
      "[[''a''], [''x''], [''y'']]" 0 "[Mutate failing ColNone, Next]"
      "projr (script [[''a''], [''x''], [''y'']] 0 [Mutate failing ColNone, Next])"]
    rownumber_counts_rows_read [of "[[''a'']]" 0 "projr (init [[''a'']] 0)"
      "projr (script [[''a'']] 0 [])" "[''a'']" "[]" "[[''a'']]" 0 "[]"
      "projr (script [[''a'']] 0 [])"]
  by (simp add: run_defs numeral_2_eq_2)

section \<open>C5: what a pull raises\<close>

text \<open>
  C5 says that every exception raised in the transform or constraint steps, any
  exception of a user function included, leaves the pull wrapped in a
  \<open>TransformError\<close>. The clause of \<open>__next__\<close> is \<open>except Exception\<close>: an exception whose
  class does not derive from \<open>Exception\<close> is not handled. For the header \<open>a\<close>, the data
  row \<open>x\<close> and \<open>mutate\<close> with a function that raises \<open>SystemExit\<close>, the pull raises
  \<open>SystemExit\<close> itself.
\<close>

theorem system_exit_not_wrapped:
  "pull_of (script [[''a''], [''x'']] 0 [Mutate exiting ColNone])
     = Inl (BaseExceptionOnly ''SystemExit'')"
  by (simp add: run_defs)

text \<open>
  C5 as amended: on an exhausted source a pull raises \<open>StopIteration\<close> as it is, and that
  is the only way a pull raises it. When a row was read, an exception of the transform
  chain or of the constraint chain that is an instance of \<open>Exception\<close>, a
  \<open>ConstraintError\<close> or one raised by a user function, leaves the pull as a
  \<open>TransformError\<close> that carries the counter after its increment and the exception; one
  that is not an instance of \<open>Exception\<close> leaves the pull as it is. Whatever leaves a
  pull is \<open>StopIteration\<close>, such a \<open>TransformError\<close>, or not an instance of \<open>Exception\<close>.
\<close>

theorem exceptions_wrapped:
  "(reader s = [] \<longrightarrow> next_row s = (Inl StopIteration, s))
   \<and> (fst (next_row s) = Inl StopIteration \<longleftrightarrow> reader s = [])
   \<and> (reader s = row # rest \<longrightarrow>
        run_mutations (s\<lparr>reader := rest, rownumber := rownumber s + 1\<rparr>) (mutation_fns s)
          ((\<lambda>_. [])(0 := map Str row, 1 := map Str row)) 0 1 = Inl e \<longrightarrow>
        fst (next_row s) =
          (if is_exception e then Inl (TransformError (rownumber s + 1) e) else Inl e))
   \<and> (reader s = row # rest \<longrightarrow>
        run_mutations (s\<lparr>reader := rest, rownumber := rownumber s + 1\<rparr>) (mutation_fns s)
          ((\<lambda>_. [])(0 := map Str row, 1 := map Str row)) 0 1 = Inr (st, m) \<longrightarrow>
        run_constraints (s\<lparr>reader := rest, rownumber := rownumber s + 1\<rparr>) (constraint_fns s) (st m)
          = Inl e' \<longrightarrow>
        fst (next_row s) =
          (if is_exception e' then Inl (TransformError (rownumber s + 1) e') else Inl e'))
   \<and> (fst (next_row s) = Inl x \<longrightarrow> x \<noteq> StopIteration \<longrightarrow> is_exception x \<longrightarrow>
        (\<exists>c. x = TransformError (rownumber s + 1) c \<and> is_exception c))"
proof (intro conjI impI)
  assume "reader s = []"
  then show "next_row s = (Inl StopIteration, s)" by (simp add: next_row_Nil)
next
  show "fst (next_row s) = Inl StopIteration \<longleftrightarrow> reader s = []"
    by (rule fst_next_row_StopIteration)
next
  assume r: "reader s = row # rest"
    and m: "run_mutations (s\<lparr>reader := rest, rownumber := rownumber s + 1\<rparr>) (mutation_fns s)
          ((\<lambda>_. [])(0 := map Str row, 1 := map Str row)) 0 1 = Inl e"
  have "try_body (s\<lparr>reader := rest, rownumber := rownumber s + 1\<rparr>) (map Str row) = Inl e"
    using m by (intro try_body_mutations_raise) simp
  then show "fst (next_row s) =
      (if is_exception e then Inl (TransformError (rownumber s + 1) e) else Inl e)"
    by (simp add: fst_next_row_Cons [OF r] handler_def)
next
  assume r: "reader s = row # rest"
    and m: "run_mutations (s\<lparr>reader := rest, rownumber := rownumber s + 1\<rparr>) (mutation_fns s)
          ((\<lambda>_. [])(0 := map Str row, 1 := map Str row)) 0 1 = Inr (st, m)"
    and c: "run_constraints (s\<lparr>reader := rest, rownumber := rownumber s + 1\<rparr>) (constraint_fns s) (st m)
          = Inl e'"
  have "try_body (s\<lparr>reader := rest, rownumber := rownumber s + 1\<rparr>) (map Str row) = Inl e'"
    using m c by (intro try_body_constraints_raise [where st = st and m = m]) simp_all
  then show "fst (next_row s) =
      (if is_exception e' then Inl (TransformError (rownumber s + 1) e') else Inl e')"
    by (simp add: fst_next_row_Cons [OF r] handler_def)
next
  assume x: "fst (next_row s) = Inl x" and "x \<noteq> StopIteration" and ex: "is_exception x"
  show "\<exists>c. x = TransformError (rownumber s + 1) c \<and> is_exception c"
  proof (cases "reader s")
    case Nil
    with x \<open>x \<noteq> StopIteration\<close> show ?thesis by (simp add: next_row_Nil)
  next
    case (Cons row rest)
    from x obtain c where "x = handler (rownumber s + 1) c"
      by (auto simp: fst_next_row_Cons [OF Cons] split: sum.splits prod.splits)
    with ex show ?thesis by (auto simp: handler_def split: if_splits)
  qed
qed

theorem exceptions_wrapped_witness:
  "fst (next_row (projr (script [[''a''], [''x'']] 0 [Mutate failing ColNone])))
     = Inl (TransformError 2 (UserError ''boom''))
   \<and> fst (next_row (projr (script [[''a''], [''x'']] 0 [Mutate exiting ColNone])))
     = Inl (BaseExceptionOnly ''SystemExit'')
   \<and> fst (next_row (projr (script [[''a''], ['''']] 0 [Constraint ''nonempty'' nonempty (ColStr ''a'')])))
     = Inl (TransformError 2 (ConstraintError ''a'' (Str '''') ''nonempty'' 2))
   \<and> next_row (projr (script [[''a'']] 0 [Mutate failing ColNone]))
     = (Inl StopIteration, projr (script [[''a'']] 0 [Mutate failing ColNone]))"
  using exceptions_wrapped [of "projr (script [[''a''], [''x'']] 0 [Mutate failing ColNone])" "[''x'']" "[]"
      "UserError ''boom''" "(\<lambda>_. [])" 0 StopIteration "TransformError 2 (UserError ''boom'')"]
    exceptions_wrapped [of "projr (script [[''a''], [''x'']] 0 [Mutate exiting ColNone])" "[''x'']" "[]"
      "BaseExceptionOnly ''SystemExit''" "(\<lambda>_. [])" 0 StopIteration StopIteration]
    exceptions_wrapped [of "projr (script [[''a''], ['''']] 0 [Constraint ''nonempty'' nonempty (ColStr ''a'')])"
      "['''']" "[]" StopIteration "(\<lambda>_. [])(0 := [Str ''''], 1 := [Str ''''])" 1
      "ConstraintError ''a'' (Str '''') ''nonempty'' 2" StopIteration]
    exceptions_wrapped [of "projr (script [[''a'']] 0 [Mutate failing ColNone])" "[]" "[]"
      StopIteration "(\<lambda>_. [])" 0 StopIteration StopIteration]
  by (simp add: run_defs)

section \<open>C10: the pull after a failed pull\<close>

text \<open>
  C10: when a pull raises a \<open>TransformError\<close>, a row was read; the object afterwards is
  the object before with the row taken from the source and the counter raised by one,
  and nothing else changed. The next pull raises \<open>StopIteration\<close> when the source is
  exhausted, and otherwise is the processing of the following row of the source: the
  row that the body of the \<open>try\<close> returns for it, or what the handler makes of the
  exception the body raises.
\<close>

theorem failed_pull_leaves_pipeline_usable:
  assumes "fst (next_row s) = Inl (TransformError n e)"
  shows "reader s \<noteq> [] \<and> n = rownumber s + 1
     \<and> snd (next_row s) = s\<lparr>reader := tl (reader s), rownumber := rownumber s + 1\<rparr>
     \<and> (tl (reader s) = [] \<longrightarrow> fst (next_row (snd (next_row s))) = Inl StopIteration)
     \<and> (tl (reader s) \<noteq> [] \<longrightarrow>
          fst (next_row (snd (next_row s))) =
            (case try_body (s\<lparr>reader := tl (tl (reader s)), rownumber := rownumber s + 2\<rparr>)
                    (map Str (hd (tl (reader s)))) of
               Inl e' \<Rightarrow> Inl (handler (rownumber s + 2) e')
             | Inr (st, a) \<Rightarrow> Inr (st a)))"
proof (cases "reader s")
  case Nil
  with assms show ?thesis by (simp add: next_row_Nil)
next
  case (Cons row rest)
  have s1: "snd (next_row s) = s\<lparr>reader := rest, rownumber := rownumber s + 1\<rparr>"
    by (rule snd_next_row_Cons [OF Cons])
  from assms Cons have n: "n = rownumber s + 1"
    by (auto simp: fst_next_row_Cons [OF Cons] split: sum.splits prod.splits
        dest: handler_TransformError)
  show ?thesis
  proof (cases rest)
    case Nil
    with Cons s1 n show ?thesis by (simp add: next_row_Nil)
  next
    case (Cons r rs)
    have "reader (snd (next_row s)) = r # rs" by (simp add: s1 Cons)
    from fst_next_row_Cons [OF this] \<open>reader s = row # rest\<close> Cons s1 n
    show ?thesis by (simp add: add.assoc cong: sum.case_cong)
  qed
qed

theorem failed_pull_leaves_pipeline_usable_witness:
  "fst (next_row (projr (script [[''a''], [''''], [''x'']] 0 [Constraint ''nonempty'' nonempty (ColStr ''a'')])))
     = Inl (TransformError 2 (ConstraintError ''a'' (Str '''') ''nonempty'' 2))
   \<and> fst (next_row (snd (next_row
        (projr (script [[''a''], [''''], [''x'']] 0 [Constraint ''nonempty'' nonempty (ColStr ''a'')])))))
     = Inr [Str ''x'']
   \<and> fst (next_row (snd (next_row
        (projr (script [[''a''], ['''']] 0 [Constraint ''nonempty'' nonempty (ColStr ''a'')])))))
     = Inl StopIteration"
  using failed_pull_leaves_pipeline_usable [of "projr (script [[''a''], [''''], [''x'']] 0 [Constraint ''nonempty'' nonempty (ColStr ''a'')])"
      2 "ConstraintError ''a'' (Str '''') ''nonempty'' 2"]
    failed_pull_leaves_pipeline_usable [of "projr (script [[''a''], ['''']] 0 [Constraint ''nonempty'' nonempty (ColStr ''a'')])"
      2 "ConstraintError ''a'' (Str '''') ''nonempty'' 2"]
  by (simp add: run_defs)

section \<open>C3: the names and the dictionary of indices\<close>

text \<open>
  C3 says that after construction, \<open>rename\<close>, \<open>add\<close>, \<open>add_column\<close> and \<open>select\<close> the
  dictionary is the one regenerated from the names and has \<open>len(names)\<close> entries.
  \<open>select\<close> assigns the names and leaves the dictionary: for the header \<open>a, b\<close> and
  \<open>select([b])\<close> the names are \<open>b\<close> and the dictionary still maps \<open>a\<close> to 0 and \<open>b\<close> to
  1, where the regenerated one maps \<open>b\<close> to 0. And a name that occurs twice has one
  entry: the header \<open>a, a\<close> gives two names and one entry.
\<close>

theorem select_keeps_dictionary:
  "field_of idx (script [[''a'', ''b''], [''1'', ''2'']] 0 [Select [''b'']]) = Inr [(''a'', 0), (''b'', 1)]
   \<and> field_of names_list (script [[''a'', ''b''], [''1'', ''2'']] 0 [Select [''b'']]) = Inr [''b'']
   \<and> regen [''b''] = [(''b'', 0)]
   \<and> field_of idx (script [[''a'', ''a'']] 0 []) = Inr [(''a'', 1)]
   \<and> field_of names_list (script [[''a'', ''a'']] 0 []) = Inr [''a'', ''a'']"
  by (simp add: run_defs)

text \<open>
  C3 as amended: after construction and after \<open>rename\<close> the dictionary is the one
  regenerated from the names; \<open>add\<close> and \<open>add_column\<close> keep it so when it was so
  before; such a dictionary has one entry for every distinct name, which are
  \<open>len(names)\<close> entries exactly when no name occurs twice; \<open>select\<close> replaces the names
  by its argument and leaves the dictionary as it was.
\<close>

theorem schema_registry_regenerable:
  "(init src skiprows = Inr s \<longrightarrow> idx s = regen (names_list s))
   \<and> idx (rename name_map t) = regen (names_list (rename name_map t))
   \<and> (idx t = regen (names_list t) \<longrightarrow>
        idx (add name v t) = regen (names_list (add name v t)))
   \<and> (idx t = regen (names_list t) \<longrightarrow> names t < next_addr t \<longrightarrow>
        add_column name fn c t = Inr t' \<longrightarrow> idx t' = regen (names_list t'))
   \<and> (idx t = regen (names_list t) \<longrightarrow>
        length (idx t) = card (set (names_list t))
        \<and> (length (idx t) = length (names_list t) \<longleftrightarrow> distinct (names_list t)))
   \<and> (select cols t = Inr t'' \<longrightarrow> idx t'' = idx t \<and> names_list t'' = cols)"
proof (intro conjI impI)
  assume "init src skiprows = Inr s"
  then show "idx s = regen (names_list s)" by (rule init_schema)
next
  show "idx (rename name_map t) = regen (names_list (rename name_map t))"
    by (simp add: rename_schema)
next
  assume "idx t = regen (names_list t)"
  then show "idx (add name v t) = regen (names_list (add name v t))"
    by (simp add: add_def register_column_schema regen_snoc)
next
  assume "idx t = regen (names_list t)" "names t < next_addr t" "add_column name fn c t = Inr t'"
  then show "idx t' = regen (names_list t')"
    by (simp add: add_column_schema regen_snoc)
next
  assume "idx t = regen (names_list t)"
  then show "length (idx t) = card (set (names_list t))" by (simp add: length_regen)
next
  assume "idx t = regen (names_list t)"
  then show "length (idx t) = length (names_list t) \<longleftrightarrow> distinct (names_list t)"
    by (simp add: length_regen_distinct)
next
  assume "select cols t = Inr t''"
  then show "idx t'' = idx t" by (simp add: select_schema)
next
  assume "select cols t = Inr t''"
  then show "names_list t'' = cols" by (simp add: select_schema)
qed

theorem schema_registry_regenerable_witness:
  "idx (projr (init [[''a'', ''b''], [''1'', ''2'']] 0))
     = regen (names_list (projr (init [[''a'', ''b''], [''1'', ''2'']] 0)))
   \<and> idx (rename [(''a'', ''c'')] (projr (init [[''a'', ''b''], [''1'', ''2'']] 0))) = [(''c'', 0), (''b'', 1)]
   \<and> idx (add ''k'' (Str ''v'') (projr (init [[''a'', ''b''], [''1'', ''2'']] 0)))
     = regen [''a'', ''b'', ''k'']
   \<and> idx (projr (add_column ''k'' first_of (ColStr ''a'') (projr (init [[''a'', ''b''], [''1'', ''2'']] 0))))
     = regen [''a'', ''b'', ''k'']
   \<and> length (idx (projr (init [[''a'', ''b''], [''1'', ''2'']] 0))) = 2
   \<and> idx (projr (select [''b''] (projr (init [[''a'', ''b''], [''1'', ''2'']] 0))))
     = idx (projr (init [[''a'', ''b''], [''1'', ''2'']] 0))
   \<and> names_list (projr (select [''b''] (projr (init [[''a'', ''b''], [''1'', ''2'']] 0)))) = [''b'']"
  using schema_registry_regenerable [of "[[''a'', ''b''], [''1'', ''2'']]" 0
      "projr (init [[''a'', ''b''], [''1'', ''2'']] 0)" "[(''a'', ''c'')]"
      "projr (init [[''a'', ''b''], [''1'', ''2'']] 0)" "''k''" "Str ''v''" first_of "ColStr ''a''"
      "projr (add_column ''k'' first_of (ColStr ''a'') (projr (init [[''a'', ''b''], [''1'', ''2'']] 0)))"
      "[''b'']" "projr (select [''b''] (projr (init [[''a'', ''b''], [''1'', ''2'']] 0)))"]
  by (simp add: run_defs)

section \<open>C8: rename and the index of a column\<close>

text \<open>
  C8 says that for a current name \<open>a\<close> and any name \<open>b\<close>, after \<open>rename({a: b})\<close> the
  name \<open>b\<close> resolves to the index \<open>a\<close> had and \<open>a\<close> does not resolve. With the names
  \<open>a, b\<close> the name \<open>a\<close> has index 0 and after the renaming \<open>b\<close> has index 1; with
  \<open>b\<close> equal to \<open>a\<close> the name \<open>a\<close> still resolves; and after \<open>select([c])\<close> on the
  header \<open>a, c\<close> the name \<open>c\<close> has index 1 and \<open>d\<close> has index 0 after the renaming of
  \<open>c\<close> to \<open>d\<close>.
\<close>

theorem rename_to_present_name:
  "resolve_in (script [[''a'', ''b'']] 0 []) ''a'' = Inr 0
   \<and> resolve_in (script [[''a'', ''b'']] 0 [Rename [(''a'', ''b'')]]) ''b'' = Inr 1
   \<and> resolve_in (script [[''a'']] 0 [Rename [(''a'', ''a'')]]) ''a'' = Inr 0
   \<and> resolve_in (script [[''a'', ''c'']] 0 [Select [''c'']]) ''c'' = Inr 1
   \<and> resolve_in (script [[''a'', ''c'']] 0 [Select [''c''], Rename [(''c'', ''d'')]]) ''d'' = Inr 0"
  by (simp add: run_defs)

text \<open>
  C8 as amended: when the dictionary is the one regenerated from the names, \<open>a\<close> is a
  current name and \<open>b\<close> is not a current name, then after \<open>rename({a: b})\<close> the name
  \<open>b\<close> resolves to the index that \<open>a\<close> resolved to before, and \<open>a\<close> raises the
  \<open>KeyError\<close> of an unknown column.
\<close>

theorem rename_keeps_index:
  assumes "idx s = regen (names_list s)"
    and "a \<in> set (names_list s)" and "b \<notin> set (names_list s)"
  shows "resolve (rename [(a, b)] s) b = resolve s a
     \<and> resolve (rename [(a, b)] s) a = Inl (KeyError a)
     \<and> (\<exists>i. resolve s a = Inr i)"
proof -
  let ?f = "\<lambda>name. case map_of [(a, b)] name of None \<Rightarrow> name | Some new_name \<Rightarrow> new_name"
  have fa: "?f a = b" by simp
  have ab: "a \<noteq> b" using assms(2,3) by auto
  have names': "names_list (rename [(a, b)] s) = map ?f (names_list s)"
    and idx': "idx (rename [(a, b)] s) = regen (map ?f (names_list s))"
    using rename_schema [of "[(a, b)]" s] by simp_all
  have "inj_on ?f (insert a (set (names_list s)))"
    using assms(2,3) by (auto simp: inj_on_def split: if_splits)
  from map_of_regen_map [OF this]
  have "map_of (regen (map ?f (names_list s))) b = map_of (regen (names_list s)) a"
    by (simp only: fa)
  then have 1: "resolve (rename [(a, b)] s) b = resolve s a"
    using assms(2) by (auto simp: resolve_def idx' assms(1) map_of_regen_None split: option.splits)
  have "a \<notin> set (map ?f (names_list s))" using ab by (auto split: if_splits)
  then have "map_of (regen (map ?f (names_list s))) a = None"
    by (simp only: map_of_regen_None not_False_eq_True)
  then have 2: "resolve (rename [(a, b)] s) a = Inl (KeyError a)"
    by (simp only: resolve_def idx' option.case)
  from assms(2) have "map_of (regen (names_list s)) a \<noteq> None"
    by (simp add: map_of_regen_None)
  then have 3: "\<exists>i. resolve s a = Inr i"
    by (auto simp: resolve_def assms(1))
  from 1 2 3 show ?thesis by simp
qed

theorem rename_keeps_index_witness:
  "resolve (projr (init [[''a'', ''c'']] 0)) ''a'' = Inr 0
   \<and> resolve (rename [(''a'', ''b'')] (projr (init [[''a'', ''c'']] 0))) ''b'' = Inr 0
   \<and> resolve (rename [(''a'', ''b'')] (projr (init [[''a'', ''c'']] 0))) ''a'' = Inl (KeyError ''a'')"
  using rename_keeps_index [of "projr (init [[''a'', ''c'']] 0)" "''a''" "''b''"]
  by (simp add: run_defs)

section \<open>C9: select\<close>

text \<open>
  C9 says that the projection of \<open>select(columns)\<close> rebuilds each emitted row as the
  values at the indices resolved from \<open>columns\<close>. The closure reads \<open>self.idx\<close> and the
  list object \<open>columns\<close>, which \<open>select\<close> has made the names, when the row is processed.
  For the header \<open>a, b\<close> and the data row \<open>1, 2\<close>, the name \<open>b\<close> resolves to index 1 and
  after \<open>select([b])\<close> the pull returns \<open>2\<close>; but after \<open>select([b])\<close> and \<open>rename({})\<close>,
  which rebuilds the dictionary from the names, the pull returns \<open>1\<close>, and after
  \<open>select([b])\<close> and \<open>add(k, v)\<close>, which appends \<open>k\<close> to the list object, the pull returns
  the two fields \<open>2, 2\<close>.
\<close>

theorem select_then_schema_change:
  "resolve_in (script [[''a'', ''b''], [''1'', ''2'']] 0 []) ''b'' = Inr 1
   \<and> pull_of (script [[''a'', ''b''], [''1'', ''2'']] 0 [Select [''b'']]) = Inr [Str ''2'']
   \<and> pull_of (script [[''a'', ''b''], [''1'', ''2'']] 0 [Select [''b''], Rename []]) = Inr [Str ''1'']
   \<and> pull_of (script [[''a'', ''b''], [''1'', ''2'']] 0 [Select [''b''], Add ''k'' (Str ''v'')])
     = Inr [Str ''2'', Str ''2'']"
  by (simp add: run_defs)

text \<open>
  C9 as amended: \<open>select(columns)\<close> makes \<open>columns\<close> the names of the schema. After it
  and any later calls of \<open>mutate\<close> and \<open>constraint\<close> and any pulls, with no \<open>rename\<close>,
  \<open>add\<close>, \<open>add_column\<close> or other \<open>select\<close> among them, the names are still \<open>columns\<close>
  and a pull whose transform and constraint chains pass returns a row exactly when it
  is, name by name of \<open>columns\<close> and in that order, the value of the mutated row at the
  index the name resolved to when \<open>select\<close> was called. For two different names \<open>c1\<close>
  and \<open>c2\<close>, the header \<open>c1, c2\<close>, a data row \<open>v1, v2\<close> and \<open>select([c2, c1])\<close>, the pull
  returns \<open>v2, v1\<close> and the names are \<open>c2, c1\<close>.
\<close>

theorem select_projects:
  "(select cols s = Inr s1 \<longrightarrow> names_list s1 = cols)
   \<and> (select cols s = Inr s1 \<longrightarrow> list_all keeps_schema cs \<longrightarrow> do_calls cs s1 = Inr s2 \<longrightarrow>
        names_list s2 = cols
        \<and> (reader s2 = row # rest \<longrightarrow>
            run_mutations (s2\<lparr>reader := rest, rownumber := rownumber s2 + 1\<rparr>) (mutation_fns s2)
              ((\<lambda>_. [])(0 := map Str row, 1 := map Str row)) 0 1 = Inr (st, m) \<longrightarrow>
            run_constraints (s2\<lparr>reader := rest, rownumber := rownumber s2 + 1\<rparr>)
              (constraint_fns s2) (st m) = Inr () \<longrightarrow>
            (fst (next_row s2) = Inr out \<longleftrightarrow>
             list_all2 (\<lambda>c v. \<exists>i. resolve s c = Inr i \<and> i < length (st m) \<and> v = st m ! i) cols out)))
   \<and> (c1 \<noteq> c2 \<longrightarrow>
        pull_of (script [[c1, c2], [v1, v2]] 0 [Select [c2, c1]]) = Inr [Str v2, Str v1]
        \<and> field_of names_list (script [[c1, c2], [v1, v2]] 0 [Select [c2, c1]]) = Inr [c2, c1])"
proof (intro conjI impI)
  assume "select cols s = Inr s1"
  then show "names_list s1 = cols" by (simp add: select_object)
next
  assume sel: "select cols s = Inr s1" and ks: "list_all keeps_schema cs"
    and cs: "do_calls cs s1 = Inr s2"
  from projection_kept_calls [OF cs ks] select_object [OF sel] select_allocated [OF sel]
  show "names_list s2 = cols" by simp
next
  let ?s3 = "s2\<lparr>reader := rest, rownumber := rownumber s2 + 1\<rparr>"
  assume sel: "select cols s = Inr s1" and ks: "list_all keeps_schema cs"
    and cs: "do_calls cs s1 = Inr s2" and rd: "reader s2 = row # rest"
    and mu: "run_mutations ?s3 (mutation_fns s2)
          ((\<lambda>_. [])(0 := map Str row, 1 := map Str row)) 0 1 = Inr (st, m)"
    and co: "run_constraints ?s3 (constraint_fns s2) (st m) = Inr ()"
  from projection_kept_calls [OF cs ks] select_object [OF sel] select_allocated [OF sel]
  have kept: "idx s2 = idx s" "select_fn s2 = Some (names s2)" "names_list s2 = cols"
    by simp_all
  then have fn: "select_fn ?s3 = Some (names s2)" and cols: "objs ?s3 (names s2) = cols"
    by (simp_all add: names_list_def)
  have tb: "try_body ?s3 (map Str row) =
     (case gather (idx s) cols (st m) of
        Inl e \<Rightarrow> Inl e
      | Inr out \<Rightarrow> Inr (st(2 := st m, 3 := out), 3))"
    using try_body_select [OF fn] mu co cols kept(1) by simp
  have res: "(\<lambda>c v. \<exists>i. resolve s c = Inr i \<and> i < length (st m) \<and> v = st m ! i)
      = (\<lambda>c v. \<exists>i. map_of (idx s) c = Some i \<and> i < length (st m) \<and> v = st m ! i)"
    by (auto simp: resolve_def fun_eq_iff split: option.splits)
  have "fst (next_row s2) = Inr out \<longleftrightarrow> gather (idx s) cols (st m) = Inr out"
    by (simp add: fst_next_row_Cons [OF rd] tb split: sum.splits)
  then show "fst (next_row s2) = Inr out \<longleftrightarrow>
     list_all2 (\<lambda>c v. \<exists>i. resolve s c = Inr i \<and> i < length (st m) \<and> v = st m ! i) cols out"
    by (simp only: res gather_list_all2)
next
  assume "c1 \<noteq> c2"
  then show "pull_of (script [[c1, c2], [v1, v2]] 0 [Select [c2, c1]]) = Inr [Str v2, Str v1]"
    by (simp add: run_defs)
next
  assume "c1 \<noteq> c2"
  then show "field_of names_list (script [[c1, c2], [v1, v2]] 0 [Select [c2, c1]]) = Inr [c2, c1]"
    by (simp add: run_defs)
qed

theorem select_projects_witness:
  "names_list (projr (select [''c2'', ''c1''] (projr (init [[''c1'', ''c2''], [''1'', ''2'']] 0))))
     = [''c2'', ''c1'']
   \<and> list_all keeps_schema [Mutate exclaim (ColStr ''c1''), Constraint ''nonempty'' nonempty ColNone]
   \<and> names_list (projr (do_calls [Mutate exclaim (ColStr ''c1''), Constraint ''nonempty'' nonempty ColNone]
        (projr (select [''c2'', ''c1''] (projr (init [[''c1'', ''c2''], [''1'', ''2'']] 0))))))
     = [''c2'', ''c1'']
   \<and> fst (next_row (projr (do_calls [Mutate exclaim (ColStr ''c1''), Constraint ''nonempty'' nonempty ColNone]
        (projr (select [''c2'', ''c1''] (projr (init [[''c1'', ''c2''], [''1'', ''2'']] 0)))))))
     = Inr [Str ''2'', Str ''1!'']
   \<and> pull_of (script [[''c1'', ''c2''], [''1'', ''2'']] 0 [Select [''c2'', ''c1'']])
     = Inr [Str ''2'', Str ''1'']
   \<and> field_of names_list (script [[''c1'', ''c2''], [''1'', ''2'']] 0 [Select [''c2'', ''c1'']])
     = Inr [''c2'', ''c1'']"
  using select_projects [of "[''c2'', ''c1'']" "projr (init [[''c1'', ''c2''], [''1'', ''2'']] 0)"
      "projr (select [''c2'', ''c1''] (projr (init [[''c1'', ''c2''], [''1'', ''2'']] 0)))"
      "[Mutate exclaim (ColStr ''c1''), Constraint ''nonempty'' nonempty ColNone]"
      "projr (do_calls [Mutate exclaim (ColStr ''c1''), Constraint ''nonempty'' nonempty ColNone]
        (projr (select [''c2'', ''c1''] (projr (init [[''c1'', ''c2''], [''1'', ''2'']] 0)))))"
      "[''1'', ''2'']" "[]"
      "(\<lambda>_. [])(1 := [Str ''1'', Str ''2''], 0 := [Str ''1!'', Str ''2''])" 0
      "[Str ''2'', Str ''1!'']" "''c1''" "''c2''" "''1''" "''2''"]
  by (simp add: run_defs)

section \<open>C4: a failing constraint\<close>

text \<open>
  C4 says, among other things, that no row after the failing one is ever returned. The
  failing pull has read its row and the object keeps no mark of the failure: with the
  header \<open>a\<close>, the data rows with an empty field and with \<open>x\<close>, and a constraint that
  rejects the empty string, the first pull raises and the second pull returns the row
  \<open>x\<close>.
\<close>

theorem row_after_failing_row_is_returned:
  "pull_of (script [[''a''], [''''], [''x'']] 0 [Constraint ''nonempty'' nonempty (ColStr ''a'')])
     = Inl (TransformError 2 (ConstraintError ''a'' (Str '''') ''nonempty'' 2))
   \<and> pull_of (script [[''a''], [''''], [''x'']] 0 [Constraint ''nonempty'' nonempty (ColStr ''a''), Next])
     = Inr [Str ''x'']"
  by (simp add: run_defs)

text \<open>
  C4 as amended. A row is pulled and the transform chain gives the mutated row. The
  entries of the constraint chain before the entry of \<open>fn\<close> pass, the target columns of
  the entry before \<open>c\<close> pass, and \<open>fn\<close> returns a false value on the value of \<open>c\<close>. Then,
  whatever the later target columns and the later entries are, the pull raises a
  \<open>ConstraintError\<close> with the column \<open>c\<close>, the value, the name of \<open>fn\<close> and the counter,
  wrapped in a \<open>TransformError\<close>, and returns no row; \<open>write\<close> started there writes no
  row and raises the same exception; and for a caller's object the counter in the
  exception is the number of rows read from the source so far, the header, the skipped
  rows and the failing row included.
\<close>

theorem constraint_fails_fast:
  assumes rd: "reader s = row # rest"
    and mu: "run_mutations (s\<lparr>reader := rest, rownumber := rownumber s + 1\<rparr>) (mutation_fns s)
          ((\<lambda>_. [])(0 := map Str row, 1 := map Str row)) 0 1 = Inr (st, m)"
    and cf: "constraint_fns s = before @ ConstraintFn fn_name fn a # after"
    and bf: "run_constraints (s\<lparr>reader := rest, rownumber := rownumber s + 1\<rparr>) before (st m) = Inr ()"
    and cs: "objs s a = cs_before @ c # cs_after"
    and cb: "constraint_fn (idx s) (rownumber s + 1) fn_name fn cs_before (st m) = Inr ()"
    and ix: "map_of (idx s) c = Some i" "i < length (st m)"
    and fl: "fn (st m ! i) = Inr False"
  shows "next_row s =
       (Inl (TransformError (rownumber s + 1)
              (ConstraintError c (st m ! i) fn_name (rownumber s + 1))),
        s\<lparr>reader := rest, rownumber := rownumber s + 1\<rparr>)
     \<and> write_rows s =
       ([], Some (TransformError (rownumber s + 1)
              (ConstraintError c (st m ! i) fn_name (rownumber s + 1))),
        s\<lparr>reader := rest, rownumber := rownumber s + 1\<rparr>)
     \<and> (script src skiprows calls = Inr s \<longrightarrow>
          rownumber s + 1 = int (length src) - int (length rest))"
proof -
  let ?s1 = "s\<lparr>reader := rest, rownumber := rownumber s + 1\<rparr>"
  let ?e = "ConstraintError c (st m ! i) fn_name (rownumber s + 1)"
  have "apply_constraint ?s1 (ConstraintFn fn_name fn a) (st m) = Inl ?e"
    using constraint_fn_first_failure [OF cb ix fl, of cs_after] cs by simp
  from run_constraints_first_failure [OF bf this, of after]
  have "run_constraints ?s1 (constraint_fns ?s1) (st m) = Inl ?e" by (simp add: cf)
  with mu have "try_body ?s1 (map Str row) = Inl ?e"
    by (intro try_body_constraints_raise [where st = st and m = m]) simp_all
  then have 1: "next_row s = (Inl (TransformError (rownumber s + 1) ?e), ?s1)"
    by (simp add: next_row_def rd Let_def handler_def)
  from write_rows_raises [OF 1] have 2: "write_rows s = ([], Some (TransformError (rownumber s + 1) ?e), ?s1)"
    by simp
  have 3: "script src skiprows calls = Inr s \<longrightarrow> rownumber s + 1 = int (length src) - int (length rest)"
    using script_rownumber [of src skiprows calls s] rd by auto
  from 1 2 3 show ?thesis by simp
qed

theorem constraint_fails_fast_witness:
  "next_row (projr (script [[''a'', ''b''], [''x'', '''']] 0
        [Constraint ''nonempty'' nonempty ColNone, Constraint ''other'' nonempty (ColStr ''a'')]))
     = (Inl (TransformError 2 (ConstraintError ''b'' (Str '''') ''nonempty'' 2)),
        (projr (script [[''a'', ''b''], [''x'', '''']] 0
          [Constraint ''nonempty'' nonempty ColNone, Constraint ''other'' nonempty (ColStr ''a'')]))
          \<lparr>reader := [], rownumber := 2\<rparr>)
   \<and> fst (snd (write_rows (projr (script [[''a'', ''b''], [''x'', '''']] 0
        [Constraint ''nonempty'' nonempty ColNone, Constraint ''other'' nonempty (ColStr ''a'')]))))
     = Some (TransformError 2 (ConstraintError ''b'' (Str '''') ''nonempty'' 2))"
  using constraint_fails_fast [of "projr (script [[''a'', ''b''], [''x'', '''']] 0
        [Constraint ''nonempty'' nonempty ColNone, Constraint ''other'' nonempty (ColStr ''a'')])"
      "[''x'', '''']" "[]" "(\<lambda>_. [])(0 := [Str ''x'', Str ''''], 1 := [Str ''x'', Str ''''])" 1
      "[]" "''nonempty''" nonempty 0 "[ConstraintFn ''other'' nonempty 1]" "[''a'']" "''b''" "[]" 1
      "[[''a'', ''b''], [''x'', '''']]" 0
      "[Constraint ''nonempty'' nonempty ColNone, Constraint ''other'' nonempty (ColStr ''a'')]"]
  by (simp add: run_defs)

section \<open>C6: the number of fields of an emitted row\<close>

text \<open>
  C6 says that for a valid input and every sequence of registered operations an emitted
  row has as many fields as the schema has names. After \<open>select\<close> the closure keeps the
  list object of its argument; a \<open>rename\<close> makes a new list object the names, and an
  \<open>add\<close> after it appends to the new object only. For the header \<open>a, b\<close>, the data row
  \<open>1, 2\<close> and the calls \<open>select([a])\<close>, \<open>rename({})\<close>, \<open>add(k, x)\<close> the pull returns one
  field and the schema has the two names \<open>a, k\<close>.
\<close>

theorem add_after_renamed_select:
  "valid_input [[''a'', ''b''], [''1'', ''2'']] 0
   \<and> pull_of (script [[''a'', ''b''], [''1'', ''2'']] 0 [Select [''a''], Rename [], Add ''k'' (Str ''x'')])
     = Inr [Str ''1'']
   \<and> field_of names_list
        (script [[''a'', ''b''], [''1'', ''2'']] 0 [Select [''a''], Rename [], Add ''k'' (Str ''x'')])
     = Inr [''a'', ''k'']"
  by (simp add: run_defs valid_input_def)

text \<open>
  C6 as amended: for a valid input and every sequence of calls in which no \<open>add\<close> and no
  \<open>add_column\<close> comes after a \<open>rename\<close> that itself comes after the latest \<open>select\<close>,
  every row that a pull returns has as many fields as the schema has names at that
  moment. The calls may hold pulls, so the statement is about every pull of the caller.
\<close>

theorem emitted_row_width:
  assumes "script src skiprows calls = Inr s"
    and "valid_input src skiprows"
    and "no_add_after_renamed_select NoSelect calls"
    and "fst (next_row s) = Inr out"
  shows "length out = length (names_list s)"
proof -
  from assms(1) obtain s0 where i: "init src skiprows = Inr s0" and c: "do_calls calls s0 = Inr s"
    by (auto simp: script_def split: sum.splits)
  from schema_inv_calls [OF init_schema_inv [OF i assms(2)] c assms(3)]
  obtain p' where "schema_inv (length (names_list s0)) p' s" ..
  from schema_inv_emit [OF this assms(4)] show ?thesis .
qed

theorem emitted_row_width_witness:
  "valid_input [[''a'', ''b''], [''1'', ''2'']] 0
   \<and> no_add_after_renamed_select NoSelect
        [Add ''k'' (Str ''x''), Mutate exclaim ColNone, Select [''k'', ''a'']]
   \<and> fst (next_row (projr (script [[''a'', ''b''], [''1'', ''2'']] 0
        [Add ''k'' (Str ''x''), Mutate exclaim ColNone, Select [''k'', ''a'']])))
     = Inr [Str ''x!'', Str ''1!'']
   \<and> names_list (projr (script [[''a'', ''b''], [''1'', ''2'']] 0
        [Add ''k'' (Str ''x''), Mutate exclaim ColNone, Select [''k'', ''a'']]))
     = [''k'', ''a'']"
  using emitted_row_width [of "[[''a'', ''b''], [''1'', ''2'']]" 0
      "[Add ''k'' (Str ''x''), Mutate exclaim ColNone, Select [''k'', ''a'']]"
      "projr (script [[''a'', ''b''], [''1'', ''2'']] 0
        [Add ''k'' (Str ''x''), Mutate exclaim ColNone, Select [''k'', ''a'']])"
      "[Str ''x!'', Str ''1!'']"]
  by (simp add: run_defs valid_input_def)

end
